theory Spec2Isabelle
  imports Complex_Main
begin

section \<open>Data model\<close>

text \<open>
  The polygon splitting utilities work on rings: JavaScript arrays of points
  \<^verbatim>\<open>[x, y]\<close>. A JavaScript number is modelled as a \<^typ>\<open>real\<close>: arithmetic is
  exact, and the values \<^verbatim>\<open>NaN\<close> and \<^verbatim>\<open>Infinity\<close> are outside the model (where the
  source starts a variable at \<^verbatim>\<open>Infinity\<close> the model uses an option, \<open>None\<close> being
  \<^verbatim>\<open>Infinity\<close>). Array indices and loop counters are natural numbers. Where the
  rounding of double arithmetic decides a property, as it does for the order in which
  \<^verbatim>\<open>shoelaceArea\<close> adds its terms, the function is modelled a second time on doubles
  (section ``The area in double arithmetic'').
\<close>

type_synonym point = "real \<times> real"
type_synonym ring = "point list"

text \<open>
  What the source can throw: a \<^verbatim>\<open>TypeError\<close> of the runtime (reading a component
  of \<^verbatim>\<open>undefined\<close>), or an \<^verbatim>\<open>Error\<close> with a message raised by a \<^verbatim>\<open>throw\<close>.
\<close>

datatype error = TypeError | Error string

text \<open>
  The \<^verbatim>\<open>coords\<close> argument of a driver is any JavaScript value; the drivers
  only ask \<^verbatim>\<open>Array.isArray\<close> of it. \<open>NotArray\<close> stands for every value that is
  not an array.
\<close>

datatype coords = Array ring | NotArray

section \<open>Loops with an early exit\<close>

text \<open>
  A \<^verbatim>\<open>for\<close> loop over a fixed range of indices. The body maps the loop's
  variables to their next values (\<open>Next\<close>), leaves the loop with a value
  (\<open>Break\<close>: a \<^verbatim>\<open>break\<close>, or a \<^verbatim>\<open>return\<close> from inside the loop), or throws.
\<close>

datatype ('r, 's) outcome = Next 's | Break 'r | Throw error

fun forEach :: "'a list \<Rightarrow> ('a \<Rightarrow> 's \<Rightarrow> ('r, 's) outcome) \<Rightarrow> 's \<Rightarrow> ('r, 's) outcome" where
  "forEach [] body s = Next s"
| "forEach (k # ks) body s =
     (case body k s of
        Next s' \<Rightarrow> forEach ks body s'
      | Break r \<Rightarrow> Break r
      | Throw e \<Rightarrow> Throw e)"

section \<open>Geometry primitives\<close>

text \<open>
  \<^verbatim>\<open>shoelaceArea(points)\<close>: the loop adds \<^verbatim>\<open>x1 * y2 - x2 * y1\<close> for the points at
  \<^verbatim>\<open>i\<close> and \<^verbatim>\<open>(i + 1) % n\<close>, and the result is \<^verbatim>\<open>Math.abs(area) / 2\<close>.
\<close>

definition shoelaceTerm :: "ring \<Rightarrow> nat \<Rightarrow> real" where
  "shoelaceTerm points i =
     (let n = length points;
          (x1, y1) = points ! i;
          (x2, y2) = points ! ((i + 1) mod n)
      in x1 * y2 - x2 * y1)"

definition shoelaceArea :: "ring \<Rightarrow> real" where
  "shoelaceArea points =
     (let n = length points;
          area = fold (\<lambda>i area. area + shoelaceTerm points i) [0..<n] 0
      in \<bar>area\<bar> / 2)"

text \<open>\<^verbatim>\<open>interpolate(p1, p2, t)\<close>.\<close>

definition interpolate :: "point \<Rightarrow> point \<Rightarrow> real \<Rightarrow> point" where
  "interpolate p1 p2 t = (fst p1 + t * (fst p2 - fst p1), snd p1 + t * (snd p2 - snd p1))"

section \<open>Horizontal clipping\<close>

text \<open>
  One pass of the loop of \<^verbatim>\<open>clipHorizontal\<close>, for the edge from \<^verbatim>\<open>polygon[i]\<close> to
  \<^verbatim>\<open>polygon[(i + 1) % n]\<close>: the three \<^verbatim>\<open>if\<close> statements, each of which may push
  one point onto \<^verbatim>\<open>clipped\<close>.
\<close>

definition clipEdge :: "ring \<Rightarrow> real \<Rightarrow> real \<Rightarrow> nat \<Rightarrow> ring \<Rightarrow> ring" where
  "clipEdge polygon yMin yMax i clipped =
     (let n = length polygon;
          a = polygon ! i;
          b = polygon ! ((i + 1) mod n);
          (x1, y1) = a;
          (x2, y2) = b;
          clipped1 = (if y1 \<ge> yMin \<and> y1 \<le> yMax then clipped @ [a] else clipped);
          clipped2 =
            (if (y1 < yMin \<and> y2 > yMin) \<or> (y1 > yMin \<and> y2 < yMin)
             then (let t = (yMin - y1) / (y2 - y1) in clipped1 @ [(x1 + t * (x2 - x1), yMin)])
             else clipped1);
          clipped3 =
            (if (y1 < yMax \<and> y2 > yMax) \<or> (y1 > yMax \<and> y2 < yMax)
             then (let t = (yMax - y1) / (y2 - y1) in clipped2 @ [(x1 + t * (x2 - x1), yMax)])
             else clipped2)
      in clipped3)"

text \<open>
  The closing step (\<^verbatim>\<open>// Close the polygon if needed\<close>): when the array is not
  empty and its first and last points differ in a coordinate, a copy of the first point
  is pushed.
\<close>

definition closeRing :: "ring \<Rightarrow> ring" where
  "closeRing clipped =
     (if length clipped > 0 \<and>
         (fst (clipped ! 0) \<noteq> fst (clipped ! (length clipped - 1)) \<or>
          snd (clipped ! 0) \<noteq> snd (clipped ! (length clipped - 1)))
      then clipped @ [clipped ! 0]
      else clipped)"

definition clipHorizontal :: "ring \<Rightarrow> real \<Rightarrow> real \<Rightarrow> ring" where
  "clipHorizontal polygon yMin yMax =
     (let n = length polygon;
          clipped = fold (clipEdge polygon yMin yMax) [0..<n] []
      in closeRing clipped)"

section \<open>Splitting a ring between two edges\<close>

text \<open>
  The two loops of \<^verbatim>\<open>splitAtEdges\<close>,
  \<^verbatim>\<open>for (let k = start; k !== stop; k = (k + 1) % n) poly.push(polygon[k])\<close>.
  Both \<^verbatim>\<open>start\<close> and \<^verbatim>\<open>stop\<close> are of the form \<^verbatim>\<open>(i + 1) % n\<close>, so they are below
  \<open>n\<close> whenever the loop is reached; the guard of the model says so.
\<close>

function walk :: "ring \<Rightarrow> nat \<Rightarrow> nat \<Rightarrow> ring" where
  "walk polygon k stop =
     (let n = length polygon in
      if k < n \<and> stop < n \<and> k \<noteq> stop
      then polygon ! k # walk polygon ((k + 1) mod n) stop
      else [])"
  by pat_completeness auto
termination
proof (relation "measure (\<lambda>(polygon, k, stop). (stop + length polygon - k) mod length polygon)")
  show "wf (measure (\<lambda>(polygon, k, stop). (stop + length polygon - k) mod length polygon))"
    by simp
next
  fix polygon :: ring and k stop n :: nat
  assume n: "n = length polygon" and g: "k < n \<and> stop < n \<and> k \<noteq> stop"
  have mod_shift: "(a + n - b) mod n = a - b" if "b \<le> a" and "a - b < n" for a b :: nat
  proof -
    from that(1) have "a + n - b = (a - b) + n" by arith
    then have "(a + n - b) mod n = ((a - b) + n) mod n" by (rule arg_cong)
    also have "\<dots> = (a - b) mod n" by (rule mod_add_self2)
    also have "\<dots> = a - b" using that(2) by (rule mod_less)
    finally show ?thesis .
  qed
  have "(stop + n - (k + 1) mod n) mod n < (stop + n - k) mod n"
  proof (cases "k < stop")
    case True
    from True g have e1: "(k + 1) mod n = k + 1" by (intro mod_less) arith
    have e2: "(stop + n - (k + 1)) mod n = stop - (k + 1)"
      using True g by (intro mod_shift) arith+
    have e3: "(stop + n - k) mod n = stop - k"
      using True g by (intro mod_shift) arith+
    have "stop - (k + 1) < stop - k" using True by arith
    then show ?thesis by (simp only: e1 e2 e3)
  next
    case False
    with g have lt: "stop < k" by arith
    have "stop + n - k < n" using lt g by arith
    then have old: "(stop + n - k) mod n = stop + n - k" by (rule mod_less)
    show ?thesis
    proof (cases "k + 1 < n")
      case True
      then have e1: "(k + 1) mod n = k + 1" by (rule mod_less)
      have "stop + n - (k + 1) < n" using lt g by arith
      then have e2: "(stop + n - (k + 1)) mod n = stop + n - (k + 1)" by (rule mod_less)
      have "stop + n - (k + 1) < stop + n - k" using lt g by arith
      then show ?thesis by (simp only: e1 e2 old)
    next
      case False
      with g have kn: "k + 1 = n" by arith
      have e1: "(k + 1) mod n = 0" by (simp only: kn mod_self)
      have "(stop + n) mod n = stop mod n" by (rule mod_add_self2)
      also have "\<dots> = stop" using g by (intro mod_less) arith
      finally have e2: "(stop + n - 0) mod n = stop" by (simp only: diff_zero)
      have "stop < stop + n - k" using lt g by arith
      then show ?thesis by (simp only: e1 e2 old)
    qed
  qed
  then show "((polygon, (k + 1) mod n, stop), (polygon, k, stop))
        \<in> measure (\<lambda>(polygon, k, stop). (stop + length polygon - k) mod length polygon)"
    by (simp only: n in_measure prod.case)
qed

declare walk.simps [simp del]

text \<open>
  \<^verbatim>\<open>splitAtEdges(polygon, i, j, ti, tj)\<close>. Reading \<^verbatim>\<open>polygon[i]\<close> or \<^verbatim>\<open>polygon[j]\<close>
  past the end gives \<^verbatim>\<open>undefined\<close>, and \<^verbatim>\<open>interpolate\<close> then throws a TypeError
  on \<^verbatim>\<open>p1[0]\<close>. With \<open>i < n\<close> the index \<open>(i + 1) mod n\<close> is in range.
\<close>

definition splitAtEdges :: "ring \<Rightarrow> nat \<Rightarrow> nat \<Rightarrow> real \<Rightarrow> real \<Rightarrow> error + (ring \<times> ring)" where
  "splitAtEdges polygon i j ti tj =
     (let n = length polygon in
      if i < n \<and> j < n then
        (let p_i = interpolate (polygon ! i) (polygon ! ((i + 1) mod n)) ti;
             p_j = interpolate (polygon ! j) (polygon ! ((j + 1) mod n)) tj;
             poly1 = [p_i] @ walk polygon ((i + 1) mod n) ((j + 1) mod n) @ [p_j];
             poly2 = [p_j] @ walk polygon ((j + 1) mod n) ((i + 1) mod n) @ [p_i]
         in Inr (poly1, poly2))
      else Inl TypeError)"

section \<open>Chord search\<close>

text \<open>
  The state of the search is \<^verbatim>\<open>bestSplit\<close> (\<open>None\<close> is \<^verbatim>\<open>null\<close>) and
  \<^verbatim>\<open>bestDiff\<close> (\<open>None\<close> is \<^verbatim>\<open>Infinity\<close>, below which every real \<^verbatim>\<open>diff\<close> lies).
  \<open>candidateStep\<close> is the body of the innermost loop of \<^verbatim>\<open>findOptimalSplit\<close>.
\<close>

type_synonym search = "(ring \<times> ring) option \<times> real option"

definition candidateStep ::
  "ring \<Rightarrow> real \<Rightarrow> nat \<Rightarrow> real \<Rightarrow> nat \<Rightarrow> nat \<Rightarrow> nat \<Rightarrow> nat \<Rightarrow> search \<Rightarrow> (ring \<times> ring, search) outcome" where
  "candidateStep polygon targetArea steps tolerance i j si sj st =
     (let (bestSplit, bestDiff) = st;
          ti = real si / real steps;
          tj = real sj / real steps
      in case splitAtEdges polygon i j ti tj of
           Inl e \<Rightarrow> Throw e
         | Inr (poly1, poly2) \<Rightarrow>
             (let area = shoelaceArea poly1;
                  diff = \<bar>area - targetArea\<bar>;
                  st' = (if (case bestDiff of None \<Rightarrow> True | Some b \<Rightarrow> diff < b)
                         then (Some (poly1, poly2), Some diff)
                         else (bestSplit, bestDiff))
              in if diff < tolerance * targetArea
                 then Break (poly1, poly2)
                 else Next st'))"

text \<open>
  \<^verbatim>\<open>findOptimalSplit(polygon, targetArea, steps, tolerance)\<close>: four nested loops; the
  \<^verbatim>\<open>continue\<close> of the second skips the pair \<open>(i, j)\<close>. The number of steps is a
  natural number (the callers in the source leave it at its default 10).
\<close>

definition findOptimalSplit :: "ring \<Rightarrow> real \<Rightarrow> nat \<Rightarrow> real \<Rightarrow> error + (ring \<times> ring) option" where
  "findOptimalSplit polygon targetArea steps tolerance =
     (let n = length polygon in
      case forEach [0..<n] (\<lambda>i.
             forEach [0..<n] (\<lambda>j st.
               if \<bar>int i - int j\<bar> < 2 \<or> \<bar>int i - int j\<bar> > int n - 2 then Next st
               else forEach [1..<steps] (\<lambda>si.
                      forEach [1..<steps] (\<lambda>sj.
                        candidateStep polygon targetArea steps tolerance i j si sj)) st))
             (None, None) of
        Next (bestSplit, bestDiff) \<Rightarrow> Inr bestSplit
      | Break pieces \<Rightarrow> Inr (Some pieces)
      | Throw e \<Rightarrow> Inl e)"

section \<open>Drivers\<close>

text \<open>\<^verbatim>\<open>Number.isInteger\<close> on a number.\<close>

definition isInteger :: "real \<Rightarrow> bool" where
  "isInteger x = (of_int \<lfloor>x\<rfloor> = x)"

text \<open>
  The body of the loop of \<^verbatim>\<open>splitEqualArea\<close>, on the variables \<^verbatim>\<open>parts\<close> and
  \<^verbatim>\<open>current\<close>; \<open>Break\<close> is the \<^verbatim>\<open>break\<close> taken when the search returns \<^verbatim>\<open>null\<close>.
\<close>

definition peelChord ::
  "real \<Rightarrow> nat \<Rightarrow> ring list \<times> ring \<Rightarrow> (ring list \<times> ring, ring list \<times> ring) outcome" where
  "peelChord count i st =
     (let (parts, current) = st;
          remainingArea = shoelaceArea current;
          target = remainingArea / (count - real i)
      in case findOptimalSplit current target 10 (5 / 100) of
           Inl e \<Rightarrow> Throw e
         | Inr None \<Rightarrow> Break (parts, current)
         | Inr (Some (cut0, cut1)) \<Rightarrow> Next (parts @ [cut0], cut1))"

text \<open>
  \<^verbatim>\<open>splitEqualArea(coords, count)\<close>. Past the validation \<^verbatim>\<open>count\<close> is a positive
  integer, and the loop \<^verbatim>\<open>for (let i = 0; i < count - 1; i++)\<close> runs over
  \<open>0, \<dots>, count - 2\<close>.
\<close>

definition splitEqualArea :: "coords \<Rightarrow> real \<Rightarrow> error + ring list" where
  "splitEqualArea coords count =
     (case coords of
        NotArray \<Rightarrow> Inl (Error ''Coordinates must be an array'')
      | Array cs \<Rightarrow>
          if count \<le> 0 \<or> \<not> isInteger count then Inl (Error ''Count must be positive integer'')
          else
            (case forEach [0..<nat \<lfloor>count\<rfloor> - 1] (peelChord count) ([], cs) of
               Next (parts, current) \<Rightarrow> Inr (parts @ [current])
             | Break (parts, current) \<Rightarrow> Inr (parts @ [current])
             | Throw e \<Rightarrow> Inl e))"

text \<open>
  \<^verbatim>\<open>splitByArea(coords, area)\<close>; \<^verbatim>\<open>Math.round\<close> rounds a half upwards, as
  \<^term>\<open>round\<close> does.
\<close>

definition splitByArea :: "coords \<Rightarrow> real \<Rightarrow> error + ring list" where
  "splitByArea coords area =
     (case coords of
        NotArray \<Rightarrow> Inl (Error ''Coordinates must be an array'')
      | Array cs \<Rightarrow>
          if area \<le> 0 then Inl (Error ''Area must be positive'')
          else
            (let totalArea = shoelaceArea cs;
                 count = max 1 (round (totalArea / area))
             in splitEqualArea coords (real_of_int count)))"

text \<open>
  \<^verbatim>\<open>Math.min(...ys)\<close> and \<^verbatim>\<open>Math.max(...ys)\<close>. On an empty array JavaScript gives
  \<^verbatim>\<open>Infinity\<close> and \<^verbatim>\<open>-Infinity\<close>, which are not reals; the model has 0 there. The
  two values are used only as bounds handed to \<^verbatim>\<open>clipHorizontal\<close> with the ring
  itself, and on the empty ring \<^verbatim>\<open>clipHorizontal\<close> returns the empty array
  whatever the bounds are.
\<close>

definition Math_min :: "real list \<Rightarrow> real" where
  "Math_min ys = (case ys of [] \<Rightarrow> 0 | y # rest \<Rightarrow> fold min rest y)"

definition Math_max :: "real list \<Rightarrow> real" where
  "Math_max ys = (case ys of [] \<Rightarrow> 0 | y # rest \<Rightarrow> fold max rest y)"

text \<open>
  The binary search of \<^verbatim>\<open>splitHorizontalEqualArea\<close>: the body of the loop over
  \<^verbatim>\<open>iter\<close>, on the variables \<^verbatim>\<open>low\<close> and \<^verbatim>\<open>high\<close>, and the loop itself, whose
  value is \<^verbatim>\<open>bestSlice\<close> (\<open>None\<close> is \<^verbatim>\<open>null\<close>). The body does not throw.
\<close>

definition bandStep ::
  "ring \<Rightarrow> real \<Rightarrow> real \<Rightarrow> nat \<Rightarrow> real \<times> real \<Rightarrow> (ring, real \<times> real) outcome" where
  "bandStep remaining currentY targetArea iter st =
     (let (low, high) = st;
          midY = (low + high) / 2;
          slice = clipHorizontal remaining currentY midY;
          area = shoelaceArea slice
      in if \<bar>area - targetArea\<bar> < 1 / 100 * targetArea then Break slice
         else if area < targetArea then Next (midY, high)
         else Next (low, midY))"

definition bandSearch :: "ring \<Rightarrow> real \<Rightarrow> real \<Rightarrow> real \<Rightarrow> real \<Rightarrow> ring option" where
  "bandSearch remaining currentY targetArea low high =
     (case forEach [0..<20] (bandStep remaining currentY targetArea) (low, high) of
        Break slice \<Rightarrow> Some slice
      | Next st \<Rightarrow> None
      | Throw e \<Rightarrow> None)"

text \<open>
  The body of the outer loop, on the variables \<^verbatim>\<open>parts\<close>, \<^verbatim>\<open>currentY\<close> and
  \<^verbatim>\<open>remaining\<close>. An array is truthy even when empty, so the fallback runs exactly
  when the search left \<^verbatim>\<open>bestSlice\<close> at \<^verbatim>\<open>null\<close>. On an empty \<^verbatim>\<open>bestSlice\<close> the
  read \<^verbatim>\<open>bestSlice[bestSlice.length - 1][1]\<close> is a read of \<^verbatim>\<open>undefined[1]\<close>, a
  TypeError. The loop has no \<^verbatim>\<open>break\<close>, so \<open>Break\<close> carries no value.
\<close>

definition peelBand ::
  "real \<Rightarrow> real \<Rightarrow> real \<Rightarrow> nat \<Rightarrow> ring list \<times> real \<times> ring \<Rightarrow> (unit, ring list \<times> real \<times> ring) outcome" where
  "peelBand maxY targetArea count i st =
     (let (parts, currentY, remaining) = st;
          low = currentY;
          high = maxY;
          bestSlice =
            (case bandSearch remaining currentY targetArea low high of
               Some slice \<Rightarrow> slice
             | None \<Rightarrow>
                 clipHorizontal remaining currentY (currentY + (maxY - currentY) / (count - real i)))
      in if length bestSlice = 0 then Throw TypeError
         else
           (let currentY' = snd (bestSlice ! (length bestSlice - 1));
                remaining' = clipHorizontal remaining currentY' maxY
            in Next (parts @ [bestSlice], currentY', remaining')))"

definition splitHorizontalEqualArea :: "coords \<Rightarrow> real \<Rightarrow> error + ring list" where
  "splitHorizontalEqualArea coords count =
     (case coords of
        NotArray \<Rightarrow> Inl (Error ''Coordinates must be an array'')
      | Array cs \<Rightarrow>
          if count \<le> 0 \<or> \<not> isInteger count then Inl (Error ''Count must be positive integer'')
          else
            (let ys = map snd cs;
                 minY = Math_min ys;
                 maxY = Math_max ys;
                 totalArea = shoelaceArea cs;
                 targetArea = totalArea / count
             in case forEach [0..<nat \<lfloor>count\<rfloor> - 1] (peelBand maxY targetArea count) ([], minY, cs) of
                  Next (parts, currentY, remaining) \<Rightarrow>
                    Inr (if length remaining > 0 then parts @ [remaining] else parts)
                | Break u \<Rightarrow> Inr []
                | Throw e \<Rightarrow> Inl e))"

definition splitHorizontalByArea :: "coords \<Rightarrow> real \<Rightarrow> error + ring list" where
  "splitHorizontalByArea coords area =
     (case coords of
        NotArray \<Rightarrow> Inl (Error ''Coordinates must be an array'')
      | Array cs \<Rightarrow>
          if area \<le> 0 then Inl (Error ''Area must be positive'')
          else
            (let totalArea = shoelaceArea cs;
                 count = max 1 (round (totalArea / area))
             in splitHorizontalEqualArea coords (real_of_int count)))"

section \<open>The area in double arithmetic\<close>

text \<open>
  A double is \<open>m * 2 ^ e\<close> with an integer mantissa \<open>m\<close> and an integer exponent
  \<open>e\<close>; several pairs stand for the same number, and doubles are compared by
  \<open>valueOf\<close>. The exponent is not bounded: overflow, underflow, infinities and
  \<^verbatim>\<open>NaN\<close> are outside the model. An arithmetic operation computes the exact result
  and rounds it once, to the nearest number with a mantissa of at most 53 bits, a tie
  going to the even mantissa (\<open>roundDouble\<close>); this is what IEEE 754 prescribes for
  \<^verbatim>\<open>*\<close>, \<^verbatim>\<open>+\<close> and \<^verbatim>\<open>-\<close>. \<^verbatim>\<open>Math.abs\<close> and the division by 2 are exact.
\<close>

datatype double = Double (mantissa: int) (exponent: int)

definition valueOf :: "double \<Rightarrow> real" where
  "valueOf d = real_of_int (mantissa d) * 2 powi exponent d"

text \<open>
  The number of bits of a positive integer, and the rounding of \<open>m * 2 ^ e\<close>: a
  mantissa of more than 53 bits loses its \<open>k\<close> lowest bits; \<open>q\<close> is the mantissa
  rounded down and \<open>q + 1\<close> its neighbour above, and the remainder \<open>r\<close> against half
  of \<open>2 ^ k\<close> decides between them.
\<close>

function bitLength :: "int \<Rightarrow> int" where
  "bitLength m = (if m \<le> 0 then 0 else bitLength (m div 2) + 1)"
  by pat_completeness auto
termination
  by (relation "measure nat") simp_all

declare bitLength.simps [simp del]

definition roundDouble :: "int \<Rightarrow> int \<Rightarrow> double" where
  "roundDouble m e =
     (let k = bitLength \<bar>m\<bar> - 53 in
      if k \<le> 0 then Double m e
      else
        (let p = 2 ^ nat k;
             q = m div p;
             r = m mod p
         in Double (if 2 * r > p \<or> (2 * r = p \<and> odd q) then q + 1 else q) (e + k)))"






text \<open>
  \<^verbatim>\<open>shoelaceArea(points)\<close> again, each operation of the source rounded as the
  runtime rounds it: \<^verbatim>\<open>area += x1 * y2 - x2 * y1\<close> is two products, a difference and a
  sum.
\<close>

type_synonym dring = "(double \<times> double) list"



section \<open>Notions used in the statements\<close>

subsection \<open>Area\<close>


subsection \<open>Clipping, edge by edge\<close>

text \<open>
  The edges of a ring, each vertex paired with its cyclic successor; the point where an
  edge meets a horizontal bound, \<open>x\<close> by linear interpolation and \<open>y\<close> the bound itself;
  and the points one edge contributes to the clipped ring, for a given notion of
  crossing a bound. An edge crosses a bound strictly when one endpoint is strictly below
  it and the other strictly above. The second notion, one endpoint below the bound and
  the other at or above it, also holds of an edge that ends on the bound.
\<close>

definition edges :: "ring \<Rightarrow> (point \<times> point) list" where
  "edges polygon = zip polygon (rotate1 polygon)"

definition intersection :: "real \<Rightarrow> point \<Rightarrow> point \<Rightarrow> point" where
  "intersection bound a b =
     (fst a + (bound - snd a) / (snd b - snd a) * (fst b - fst a), bound)"

definition crossesStrictly :: "real \<Rightarrow> real \<Rightarrow> real \<Rightarrow> bool" where
  "crossesStrictly bound y1 y2 = ((y1 < bound \<and> bound < y2) \<or> (y2 < bound \<and> bound < y1))"

definition crossesClaimed :: "real \<Rightarrow> real \<Rightarrow> real \<Rightarrow> bool" where
  "crossesClaimed bound y1 y2 = ((y1 < bound \<and> bound \<le> y2) \<or> (y2 < bound \<and> bound \<le> y1))"

definition edgePoints :: "(real \<Rightarrow> real \<Rightarrow> real \<Rightarrow> bool) \<Rightarrow> real \<Rightarrow> real \<Rightarrow> point \<times> point \<Rightarrow> ring" where
  "edgePoints crosses yMin yMax e =
     (case e of (a, b) \<Rightarrow>
        (if yMin \<le> snd a \<and> snd a \<le> yMax then [a] else []) @
        (if crosses yMin (snd a) (snd b) then [intersection yMin a b] else []) @
        (if crosses yMax (snd a) (snd b) then [intersection yMax a b] else []))"

subsection \<open>The candidates of the chord search\<close>

text \<open>
  A candidate is \<open>(i, j, si, sj)\<close>: two edge indices and two numerators of fractions
  \<open>si / steps\<close> and \<open>sj / steps\<close>. \<open>candidates\<close> lists them in the order of the four
  loops; \<open>loopOrder\<close> is that order, lexicographic on the four components.
  \<open>candidateSplit\<close> is the pair of sub-rings of a candidate, \<open>candidateDiff\<close> the
  distance of the first sub-ring's area from the target, \<open>withinTolerance\<close> the test
  of the early exit, and \<open>keepBest\<close> the update of the best candidate seen so far.
\<close>

type_synonym candidate = "nat \<times> nat \<times> nat \<times> nat"

definition candidates :: "nat \<Rightarrow> nat \<Rightarrow> candidate list" where
  "candidates n steps =
     [(i, j, si, sj).
        i \<leftarrow> [0..<n], j \<leftarrow> [0..<n],
        2 \<le> \<bar>int i - int j\<bar> \<and> \<bar>int i - int j\<bar> \<le> int n - 2,
        si \<leftarrow> [1..<steps], sj \<leftarrow> [1..<steps]]"

definition candidateSplit :: "ring \<Rightarrow> nat \<Rightarrow> candidate \<Rightarrow> error + (ring \<times> ring)" where
  "candidateSplit polygon steps c =
     (case c of (i, j, si, sj) \<Rightarrow>
        splitAtEdges polygon i j (real si / real steps) (real sj / real steps))"

definition candidateDiff :: "ring \<Rightarrow> real \<Rightarrow> nat \<Rightarrow> candidate \<Rightarrow> real" where
  "candidateDiff polygon targetArea steps c =
     (case candidateSplit polygon steps c of
        Inr (poly1, poly2) \<Rightarrow> \<bar>shoelaceArea poly1 - targetArea\<bar>
      | Inl e \<Rightarrow> 0)"

definition withinTolerance :: "ring \<Rightarrow> real \<Rightarrow> nat \<Rightarrow> real \<Rightarrow> candidate \<Rightarrow> bool" where
  "withinTolerance polygon targetArea steps tolerance c =
     (candidateDiff polygon targetArea steps c < tolerance * targetArea)"

fun loopOrder :: "candidate \<Rightarrow> candidate \<Rightarrow> bool" where
  "loopOrder (i, j, si, sj) (i', j', si', sj') =
     (i < i' \<or> (i = i' \<and> (j < j' \<or> (j = j' \<and> (si < si' \<or> (si = si' \<and> sj < sj'))))))"

definition keepBest :: "ring \<Rightarrow> real \<Rightarrow> nat \<Rightarrow> candidate \<Rightarrow> search \<Rightarrow> search" where
  "keepBest polygon targetArea steps c st =
     (case candidateSplit polygon steps c of
        Inl e \<Rightarrow> st
      | Inr pieces \<Rightarrow>
          (case snd st of
             None \<Rightarrow> (Some pieces, Some (candidateDiff polygon targetArea steps c))
           | Some b \<Rightarrow>
               if candidateDiff polygon targetArea steps c < b
               then (Some pieces, Some (candidateDiff polygon targetArea steps c))
               else st))"

subsection \<open>Peeling pieces off a ring\<close>

text \<open>
  The pieces that the loop of \<^verbatim>\<open>splitEqualArea\<close> is to produce from the ring
  \<open>current\<close> in the iterations listed: iteration \<open>i\<close> searches a chord for the target
  \<open>shoelaceArea current / (count - i)\<close>; a cut gives its first piece and the loop goes
  on with the second; no cut ends the loop; the ring left over is the last piece.
\<close>

fun peel :: "real \<Rightarrow> nat list \<Rightarrow> ring \<Rightarrow> ring list" where
  "peel count [] current = [current]"
| "peel count (i # rest) current =
     (case findOptimalSplit current (shoelaceArea current / (count - real i)) 10 (5 / 100) of
        Inr (Some (piece, remaining)) \<Rightarrow> piece # peel count rest remaining
      | Inr None \<Rightarrow> [current]
      | Inl e \<Rightarrow> [current])"

subsection \<open>Bisection\<close>




subsection \<open>Doubles and reals\<close>

text \<open>
  The ring of reals that a ring of doubles stands for; rings whose coordinates are
  integers of magnitude at most \<open>M\<close>, written with exponent 0; the integer term of an
  edge of such a ring; and a thin quadrilateral with the vertices \<open>(0, 1)\<close>,
  \<open>(1, 1)\<close>, \<open>(1, 100000000)\<close> and \<open>(100000000, 0)\<close>.
\<close>

definition ringOf :: "dring \<Rightarrow> ring" where
  "ringOf points = map (\<lambda>(x, y). (valueOf x, valueOf y)) points"


definition thinQuad :: dring where
  "thinQuad = [(Double 0 0, Double 1 0), (Double 1 0, Double 1 0),
               (Double 1 0, Double 100000000 0), (Double 100000000 0, Double 0 0)]"


section \<open>Properties of shoelaceArea\<close>

lemma fold_add_sum:
  "fold (\<lambda>i (a::real). a + f i) [0..<n] a0 = a0 + (\<Sum>i<n. f i)"
  by (induction n) simp_all

lemma shoelaceArea_sum:
  "shoelaceArea points = \<bar>\<Sum>i<length points. shoelaceTerm points i\<bar> / 2"
  by (simp add: shoelaceArea_def fold_add_sum)

lemma shoelaceTerm_two:
  "shoelaceTerm [p, q] 0 + shoelaceTerm [p, q] (Suc 0) = 0"
  by (simp add: shoelaceTerm_def split: prod.splits)

text \<open>
  C9: a ring with fewer than 3 points (the empty ring included) has area 0. In the
  model \<open>shoelaceArea\<close> is a total function on rings, so it returns and does not throw.
\<close>

theorem shoelaceArea_degenerate:
  "length points < 3 \<Longrightarrow> shoelaceArea points = 0"
proof -
  assume short: "length points < 3"
  consider "points = []" | p where "points = [p]" | p q where "points = [p, q]"
  proof (cases points)
    case Nil
    then show ?thesis using that by simp
  next
    case (Cons p ps)
    note outer = this
    show ?thesis
    proof (cases ps)
      case Nil
      with outer show ?thesis using that by simp
    next
      case (Cons q qs)
      with outer short have "points = [p, q]" by simp
      then show ?thesis using that by simp
    qed
  qed
  then show ?thesis
  proof cases
    case 1
    then show ?thesis by (simp add: shoelaceArea_sum)
  next
    case 2
    then show ?thesis by (simp add: shoelaceArea_sum shoelaceTerm_def split: prod.splits)
  next
    case 3
    have "(\<Sum>i<2. shoelaceTerm [p, q] i) = shoelaceTerm [p, q] 0 + shoelaceTerm [p, q] (Suc 0)"
      by (simp add: numeral_2_eq_2)
    with 3 show ?thesis by (simp add: shoelaceArea_sum shoelaceTerm_two)
  qed
qed

theorem shoelaceArea_degenerate_witness:
  "length [(3, 4), (7, 1 :: real)] < 3 \<and> shoelaceArea [(3, 4), (7, 1)] = 0"
  using shoelaceArea_degenerate [of "[(3, 4), (7, 1)]"] by simp

subsection \<open>The signed sum as a sum over the cyclic edge list\<close>











lemma area_square: "shoelaceArea [(0, 0), (10, 0), (10, 10), (0, 10)] = 100"
  by (simp add: shoelaceArea_def shoelaceTerm_def)

section \<open>Properties of the area in double arithmetic\<close>

subsection \<open>Rounding\<close>

text \<open>
  Above \<open>2 ^ 53\<close> the doubles are the even integers: \<open>2 ^ 53 + 1\<close> lies halfway
  between two of them and goes to the one with the even mantissa, \<open>2 ^ 53 + 3\<close>
  likewise, and the negative numbers mirror the positive ones.
\<close>

lemma roundDouble_ties:
  "roundDouble 9007199254740993 0 = Double 4503599627370496 1 \<and>
   roundDouble 9007199254740995 0 = Double 4503599627370498 1 \<and>
   roundDouble (- 9007199254740993) 0 = Double (- 4503599627370496) 1 \<and>
   roundDouble 9007199254740994 0 = Double 4503599627370497 1 \<and>
   roundDouble 9007199254740991 0 = Double 9007199254740991 0"
  by code_simp

subsection \<open>Rings with small integer coordinates are computed exactly\<close>



















subsection \<open>The thin quadrilateral in three orders\<close>





























lemma thinQuad_exact:
  "shoelaceArea (ringOf thinQuad) = 4999999900000001"
  by (simp add: ringOf_def thinQuad_def valueOf_def shoelaceArea_def shoelaceTerm_def)




section \<open>Properties of forEach\<close>

lemma forEach_append:
  "forEach (xs @ ys) body s =
     (case forEach xs body s of
        Next s' \<Rightarrow> forEach ys body s'
      | Break r \<Rightarrow> Break r
      | Throw e \<Rightarrow> Throw e)"
  by (induction xs arbitrary: s) (simp_all split: outcome.splits)

lemma forEach_concat_map:
  "forEach (concat (map g xs)) body = forEach xs (\<lambda>x. forEach (g x) body)"
proof
  fix s
  show "forEach (concat (map g xs)) body s = forEach xs (\<lambda>x. forEach (g x) body) s"
    by (induction xs arbitrary: s) (simp_all add: forEach_append split: outcome.splits)
qed

lemma forEach_map:
  "forEach (map h ys) body = forEach ys (\<lambda>y. body (h y))"
proof
  fix s
  show "forEach (map h ys) body s = forEach ys (\<lambda>y. body (h y)) s"
    by (induction ys arbitrary: s) (simp_all split: outcome.splits)
qed

lemma forEach_if:
  "forEach (if c then ys else []) body = (\<lambda>s. if c then forEach ys body s else Next s)"
  by (intro ext) simp

lemma forEach_cong:
  "(\<And>x s. x \<in> set xs \<Longrightarrow> f x s = g x s) \<Longrightarrow> forEach xs f s = forEach xs g s"
  by (induction xs arbitrary: s) (simp_all split: outcome.splits)

section \<open>Properties of clipHorizontal\<close>

lemma clipEdge_append:
  "clipEdge polygon yMin yMax i clipped =
     clipped @ edgePoints crossesStrictly yMin yMax
                 (polygon ! i, polygon ! ((i + 1) mod length polygon))"
proof -
  obtain x1 y1 where a: "polygon ! i = (x1, y1)" by (cases "polygon ! i")
  obtain x2 y2 where b: "polygon ! ((i + 1) mod length polygon) = (x2, y2)"
    by (cases "polygon ! ((i + 1) mod length polygon)")
  have "clipEdge polygon yMin yMax i clipped =
          clipped @ edgePoints crossesStrictly yMin yMax ((x1, y1), (x2, y2))"
    using a b
    by (simp add: clipEdge_def edgePoints_def crossesStrictly_def intersection_def Let_def)
  then show ?thesis by (simp only: a b)
qed

lemma fold_append_concat:
  "fold (\<lambda>i acc. acc @ f i) xs acc0 = acc0 @ concat (map f xs)"
  by (induction xs arbitrary: acc0) simp_all

lemma edges_nth:
  "edges polygon = map (\<lambda>i. (polygon ! i, polygon ! ((i + 1) mod length polygon))) [0..<length polygon]"
  by (rule nth_equalityI) (simp_all add: edges_def nth_rotate1)

lemma clipHorizontal_edges:
  "clipHorizontal polygon yMin yMax =
     closeRing (concat (map (edgePoints crossesStrictly yMin yMax) (edges polygon)))"
proof -
  have "clipEdge polygon yMin yMax =
        (\<lambda>i acc. acc @ edgePoints crossesStrictly yMin yMax
                   (polygon ! i, polygon ! ((i + 1) mod length polygon)))"
    by (intro ext) (rule clipEdge_append)
  then show ?thesis
    by (simp add: clipHorizontal_def fold_append_concat edges_nth comp_def)
qed

lemma closeRing_eq:
  "closeRing xs = (if xs = [] \<or> hd xs = last xs then xs else xs @ [hd xs])"
  by (cases xs) (auto simp: closeRing_def last_conv_nth prod_eq_iff hd_conv_nth)

lemma closeRing_idem: "closeRing (closeRing xs) = closeRing xs"
  by (cases xs) (simp_all add: closeRing_eq)

lemma edgePoints_band:
  assumes "yMin \<le> yMax" and "p \<in> set (edgePoints crosses yMin yMax e)"
  shows "yMin \<le> snd p \<and> snd p \<le> yMax"
  using assms by (auto simp: edgePoints_def intersection_def split: prod.splits if_splits)

lemma set_closeRing: "set (closeRing xs) = set xs"
  by (cases xs) (auto simp: closeRing_eq)

lemma vertex_kept:
  assumes "yMin \<le> yMax" and "a \<in> set polygon"
  shows "a \<in> set (clipHorizontal polygon yMin yMax) \<longleftrightarrow> yMin \<le> snd a \<and> snd a \<le> yMax"
proof
  assume "a \<in> set (clipHorizontal polygon yMin yMax)"
  then obtain e where "a \<in> set (edgePoints crossesStrictly yMin yMax e)"
    by (auto simp: clipHorizontal_edges set_closeRing)
  with assms(1) show "yMin \<le> snd a \<and> snd a \<le> yMax" by (rule edgePoints_band)
next
  assume band: "yMin \<le> snd a \<and> snd a \<le> yMax"
  from assms(2) obtain i where i: "i < length polygon" "polygon ! i = a"
    by (auto simp: in_set_conv_nth)
  let ?e = "(polygon ! i, polygon ! ((i + 1) mod length polygon))"
  have "?e \<in> set (edges polygon)" using i(1) by (simp add: edges_nth)
  moreover have "a \<in> set (edgePoints crossesStrictly yMin yMax ?e)"
    using band i(2) by (simp add: edgePoints_def)
  ultimately show "a \<in> set (clipHorizontal polygon yMin yMax)"
    by (auto simp: clipHorizontal_edges set_closeRing)
qed

text \<open>
  C4, as the code has it. The clipped ring is the closing of the points that the
  edges contribute in ring order: for each edge from \<open>a\<close> to \<open>b\<close>, the vertex \<open>a\<close> when
  \<open>yMin \<le> a.y \<le> yMax\<close>, then the intersection with \<open>yMin\<close> when the edge crosses
  \<open>yMin\<close> strictly (one endpoint strictly below, the other strictly above), then
  likewise the intersection with \<open>yMax\<close>; an intersection has \<open>y\<close> equal to the bound
  and \<open>x\<close> by linear interpolation. Closing appends the first point exactly when the
  ring is not empty and its first and last points differ, so closing twice is closing
  once. With \<open>yMin \<le> yMax\<close>, a vertex of the ring is a point of the result exactly
  when it lies in the band.
\<close>

theorem clipHorizontal_strict:
  "clipHorizontal polygon yMin yMax =
     closeRing (concat (map (edgePoints crossesStrictly yMin yMax) (edges polygon))) \<and>
   closeRing xs = (if xs = [] \<or> hd xs = last xs then xs else xs @ [hd xs]) \<and>
   closeRing (closeRing xs) = closeRing xs \<and>
   (yMin \<le> yMax \<longrightarrow>
      (\<forall>a \<in> set polygon.
         a \<in> set (clipHorizontal polygon yMin yMax) \<longleftrightarrow> yMin \<le> snd a \<and> snd a \<le> yMax))"
  using clipHorizontal_edges closeRing_eq closeRing_idem vertex_kept by blast

lemma clip_triangle:
  "clipHorizontal [(0, - 1), (2, 0), (0, 1)] 0 5 = [(2, 0), (0, 1), (0, 0), (2, 0)]"
  by (simp add: clipHorizontal_def clipEdge_def closeRing_def)

text \<open>
  The edge from \<open>(0, -1)\<close> to \<open>(2, 0)\<close> has one endpoint below the bound \<open>0\<close> and the
  other on it. The code inserts no intersection for it (the endpoint on the bound is
  kept as a vertex when its own edge is visited); inserting one would give the point
  \<open>(2, 0)\<close> twice.
\<close>

theorem clipHorizontal_claimed_crossing:
  "crossesClaimed 0 (snd (0, - 1 :: real)) (snd (2, 0 :: real)) \<and>
   clipHorizontal [(0, - 1), (2, 0), (0, 1)] 0 5 = [(2, 0), (0, 1), (0, 0), (2, 0)] \<and>
   closeRing (concat (map (edgePoints crossesClaimed 0 5) (edges [(0, - 1), (2, 0), (0, 1)]))) =
     [(2, 0), (2, 0), (0, 1), (0, 0), (2, 0)] \<and>
   clipHorizontal [(0, - 1), (2, 0), (0, 1)] 0 5 \<noteq>
     closeRing (concat (map (edgePoints crossesClaimed 0 5) (edges [(0, - 1), (2, 0), (0, 1)])))"
  by (simp add: clip_triangle crossesClaimed_def edges_def edgePoints_def intersection_def
      closeRing_def)

theorem clipHorizontal_strict_witness:
  "(0 :: real) \<le> 5 \<and>
   clipHorizontal [(0, - 1), (2, 0), (0, 1)] 0 5 = [(2, 0), (0, 1), (0, 0), (2, 0)] \<and>
   closeRing [(2, 0), (0, 1), (0, 0), (2, 0)] = [(2, 0), (0, 1), (0, 0), (2, 0)] \<and>
   (2, 0) \<in> set (clipHorizontal [(0, - 1), (2, 0), (0, 1)] 0 5) \<and>
   (0, - 1) \<notin> set (clipHorizontal [(0, - 1), (2, 0), (0, 1)] 0 5)"
  using clipHorizontal_strict [of "[(0, - 1), (2, 0), (0, 1)]" 0 5 "[(2, 0), (0, 1), (0, 0), (2, 0)]"]
  by (simp add: edges_def edgePoints_def crossesStrictly_def intersection_def closeRing_def)

section \<open>Properties of findOptimalSplit\<close>

subsection \<open>The four loops as one loop over the candidates\<close>

lemma findOptimalSplit_flat:
  "findOptimalSplit polygon targetArea steps tolerance =
     (case forEach (candidates (length polygon) steps)
             (\<lambda>(i, j, si, sj). candidateStep polygon targetArea steps tolerance i j si sj)
             (None, None) of
        Next (bestSplit, bestDiff) \<Rightarrow> Inr bestSplit
      | Break pieces \<Rightarrow> Inr (Some pieces)
      | Throw e \<Rightarrow> Inl e)"
proof -
  have skip: "(\<lambda>j st. if \<bar>int i - int j\<bar> < 2 \<or> \<bar>int i - int j\<bar> > int (length polygon) - 2 then Next st
                 else F j st) =
              (\<lambda>j st. if 2 \<le> \<bar>int i - int j\<bar> \<and> \<bar>int i - int j\<bar> \<le> int (length polygon) - 2 then F j st
                 else Next st)" for i :: nat and F :: "nat \<Rightarrow> search \<Rightarrow> (ring \<times> ring, search) outcome"
    by (intro ext) auto
  show ?thesis
    unfolding findOptimalSplit_def candidates_def Let_def
    by (simp add: forEach_concat_map forEach_map forEach_if skip cong: if_cong)
qed

lemma candidates_iff:
  "(i, j, si, sj) \<in> set (candidates n steps) \<longleftrightarrow>
     i < n \<and> j < n \<and> 2 \<le> \<bar>int i - int j\<bar> \<and> \<bar>int i - int j\<bar> \<le> int n - 2 \<and>
     1 \<le> si \<and> si < steps \<and> 1 \<le> sj \<and> sj < steps"
proof
  assume "(i, j, si, sj) \<in> set (candidates n steps)"
  then show "i < n \<and> j < n \<and> 2 \<le> \<bar>int i - int j\<bar> \<and> \<bar>int i - int j\<bar> \<le> int n - 2 \<and>
     1 \<le> si \<and> si < steps \<and> 1 \<le> sj \<and> sj < steps"
    by (auto simp: candidates_def)
next
  assume a: "i < n \<and> j < n \<and> 2 \<le> \<bar>int i - int j\<bar> \<and> \<bar>int i - int j\<bar> \<le> int n - 2 \<and>
     1 \<le> si \<and> si < steps \<and> 1 \<le> sj \<and> sj < steps"
  then have "i \<in> set [0..<n]" "j \<in> set [0..<n]" "si \<in> set [1..<steps]" "sj \<in> set [1..<steps]"
    by simp_all
  with a show "(i, j, si, sj) \<in> set (candidates n steps)"
    unfolding candidates_def by (simp add: image_iff)
qed

lemma candidateSplit_Inr:
  assumes "c \<in> set (candidates (length polygon) steps)"
  shows "\<exists>pieces. candidateSplit polygon steps c = Inr pieces"
proof -
  obtain i j si sj where c: "c = (i, j, si, sj)" by (cases c) auto
  with assms have "i < length polygon" "j < length polygon"
    by (simp_all add: candidates_iff)
  then show ?thesis
    by (simp add: c candidateSplit_def splitAtEdges_def Let_def)
qed

lemma candidateStep_eq:
  assumes "candidateSplit polygon steps (i, j, si, sj) = Inr pieces"
  shows "candidateStep polygon targetArea steps tolerance i j si sj st =
           (if withinTolerance polygon targetArea steps tolerance (i, j, si, sj)
            then Break pieces
            else Next (keepBest polygon targetArea steps (i, j, si, sj) st))"
proof -
  obtain bs bd where st: "st = (bs, bd)" by (cases st)
  obtain poly1 poly2 where pieces: "pieces = (poly1, poly2)" by (cases pieces)
  from assms have split: "splitAtEdges polygon i j (real si / real steps) (real sj / real steps) = Inr (poly1, poly2)"
    by (simp add: candidateSplit_def pieces)
  have diff: "candidateDiff polygon targetArea steps (i, j, si, sj) = \<bar>shoelaceArea poly1 - targetArea\<bar>"
    by (simp add: candidateDiff_def assms pieces)
  show ?thesis
    by (cases bd)
       (simp_all add: candidateStep_def st split Let_def withinTolerance_def keepBest_def
          assms diff pieces)
qed

lemma scan_candidates:
  assumes "\<forall>c \<in> set cs. \<exists>pieces. candidateSplit polygon steps c = Inr pieces"
  shows "forEach cs (\<lambda>(i, j, si, sj). candidateStep polygon targetArea steps tolerance i j si sj) st =
           (case find (withinTolerance polygon targetArea steps tolerance) cs of
              Some c \<Rightarrow> (case candidateSplit polygon steps c of
                           Inr pieces \<Rightarrow> Break pieces | Inl e \<Rightarrow> Throw e)
            | None \<Rightarrow> Next (fold (keepBest polygon targetArea steps) cs st))"
  using assms
proof (induction cs arbitrary: st)
  case Nil
  show ?case by simp
next
  case (Cons c cs)
  obtain i j si sj where c: "c = (i, j, si, sj)" by (cases c) auto
  from Cons.prems obtain pieces where sp: "candidateSplit polygon steps (i, j, si, sj) = Inr pieces"
    by (auto simp: c)
  from Cons.prems have rest: "\<forall>c \<in> set cs. \<exists>pieces. candidateSplit polygon steps c = Inr pieces"
    by simp
  show ?case
  proof (cases "withinTolerance polygon targetArea steps tolerance (i, j, si, sj)")
    case True
    then show ?thesis by (simp add: c candidateStep_eq [OF sp] sp)
  next
    case False
    then show ?thesis
      by (simp add: c candidateStep_eq [OF sp] Cons.IH [OF rest] cong: option.case_cong)
  qed
qed

text \<open>What the search holds after a run without early exit: the best candidate so far.\<close>

lemma keepBest_fold:
  assumes "\<forall>c \<in> set cs. \<exists>pieces. candidateSplit polygon steps c = Inr pieces"
  shows "(cs = [] \<and> fold (keepBest polygon targetArea steps) cs (None, None) = (None, None)) \<or>
         (\<exists>c \<in> set cs. \<exists>pieces. candidateSplit polygon steps c = Inr pieces \<and>
            fold (keepBest polygon targetArea steps) cs (None, None) =
              (Some pieces, Some (candidateDiff polygon targetArea steps c)) \<and>
            (\<forall>c' \<in> set cs. candidateDiff polygon targetArea steps c
                \<le> candidateDiff polygon targetArea steps c'))"
  using assms
proof (induction cs rule: rev_induct)
  case Nil
  show ?case by simp
next
  case (snoc x xs)
  let ?D = "candidateDiff polygon targetArea steps"
  let ?st = "fold (keepBest polygon targetArea steps) xs (None, None)"
  from snoc.prems obtain px where px: "candidateSplit polygon steps x = Inr px" by auto
  from snoc.prems have "\<forall>c \<in> set xs. \<exists>pieces. candidateSplit polygon steps c = Inr pieces"
    by simp
  from snoc.IH [OF this] consider
      (empty) "xs = []" "?st = (None, None)"
    | (best) c pieces where "c \<in> set xs" "candidateSplit polygon steps c = Inr pieces"
        "?st = (Some pieces, Some (?D c))" "\<forall>c' \<in> set xs. ?D c \<le> ?D c'"
    by blast
  then show ?case
  proof cases
    case empty
    then have "fold (keepBest polygon targetArea steps) (xs @ [x]) (None, None) = (Some px, Some (?D x))"
      by (simp add: keepBest_def px)
    moreover have "\<forall>c' \<in> set (xs @ [x]). ?D x \<le> ?D c'"
      using empty by simp
    moreover have "x \<in> set (xs @ [x])" by simp
    ultimately show ?thesis using px by blast
  next
    case best
    show ?thesis
    proof (cases "?D x < ?D c")
      case True
      then have "fold (keepBest polygon targetArea steps) (xs @ [x]) (None, None) = (Some px, Some (?D x))"
        by (simp add: keepBest_def px best(3))
      moreover have "\<forall>c' \<in> set (xs @ [x]). ?D x \<le> ?D c'"
        using True best(4) by auto
      moreover have "x \<in> set (xs @ [x])" by simp
      ultimately show ?thesis using px by blast
    next
      case False
      then have "fold (keepBest polygon targetArea steps) (xs @ [x]) (None, None) = (Some pieces, Some (?D c))"
        by (simp add: keepBest_def px best(3))
      moreover have "\<forall>c' \<in> set (xs @ [x]). ?D c \<le> ?D c'"
        using False best(4) by auto
      moreover have "c \<in> set (xs @ [x])" using best(1) by simp
      ultimately show ?thesis using best(2) by blast
    qed
  qed
qed

subsection \<open>The order of the enumeration\<close>

lemma sorted_wrt_concat_map:
  assumes "sorted_wrt (<) (xs :: nat list)"
    and "\<And>x. x \<in> set xs \<Longrightarrow> sorted_wrt R (g x)"
    and "\<And>x y a b. x < y \<Longrightarrow> a \<in> set (g x) \<Longrightarrow> b \<in> set (g y) \<Longrightarrow> R a b"
  shows "sorted_wrt R (concat (map g xs))"
  using assms
proof (induction xs)
  case Nil
  show ?case by simp
next
  case (Cons x xs)
  have "sorted_wrt R (concat (map g xs))"
    using Cons.prems by (intro Cons.IH) auto
  moreover have "sorted_wrt R (g x)" using Cons.prems(2) by simp
  moreover have "\<forall>a \<in> set (g x). \<forall>b \<in> set (concat (map g xs)). R a b"
    using Cons.prems(1,3) by auto
  ultimately show ?case by (simp add: sorted_wrt_append)
qed

lemma candidates_sorted: "sorted_wrt loopOrder (candidates n steps)"
  unfolding candidates_def
proof (rule sorted_wrt_concat_map, goal_cases)
  case 1
  show ?case by simp
next
  case (2 i)
  show ?case
  proof (rule sorted_wrt_concat_map, goal_cases)
    case 1
    show ?case by simp
  next
    case (2 j)
    show ?case
    proof (cases "2 \<le> \<bar>int i - int j\<bar> \<and> \<bar>int i - int j\<bar> \<le> int n - 2")
      case False
      then show ?thesis by auto
    next
      case True
      have "sorted_wrt loopOrder (concat (map (\<lambda>si. map (\<lambda>sj. (i, j, si, sj)) [1..<steps]) [1..<steps]))"
      proof (rule sorted_wrt_concat_map, goal_cases)
        case 1
        show ?case by simp
      next
        case (2 si)
        have "sorted_wrt (\<lambda>x y. loopOrder (i, j, si, x) (i, j, si, y)) [1..<steps]"
          by (rule sorted_wrt_mono_rel [of _ "(<)"]) simp_all
        then show ?case by (simp add: sorted_wrt_map)
      next
        case 3
        then show ?case by auto
      qed
      with True show ?thesis by simp
    qed
  next
    case 3
    then show ?case by (auto split: if_splits)
  qed
next
  case 3
  then show ?case by (auto split: if_splits)
qed

subsection \<open>The result of the search\<close>

lemma findOptimalSplit_result:
  "findOptimalSplit polygon targetArea steps tolerance =
     Inr (case find (withinTolerance polygon targetArea steps tolerance)
                 (candidates (length polygon) steps) of
            Some c \<Rightarrow> (case candidateSplit polygon steps c of
                         Inr pieces \<Rightarrow> Some pieces | Inl e \<Rightarrow> None)
          | None \<Rightarrow> fst (fold (keepBest polygon targetArea steps)
                          (candidates (length polygon) steps) (None, None)))"
proof -
  let ?cs = "candidates (length polygon) steps"
  have ok: "\<forall>c \<in> set ?cs. \<exists>pieces. candidateSplit polygon steps c = Inr pieces"
    using candidateSplit_Inr by blast
  show ?thesis
  proof (cases "find (withinTolerance polygon targetArea steps tolerance) ?cs")
    case None
    then show ?thesis
      by (simp add: findOptimalSplit_flat scan_candidates [OF ok] split: prod.splits)
  next
    case (Some c)
    then have "c \<in> set ?cs" by (auto simp: find_Some_iff)
    then obtain pieces where "candidateSplit polygon steps c = Inr pieces"
      using ok by blast
    with Some show ?thesis
      by (simp add: findOptimalSplit_flat scan_candidates [OF ok])
  qed
qed

lemma findOptimalSplit_no_throw:
  "\<exists>r. findOptimalSplit polygon targetArea steps tolerance = Inr r"
  by (simp add: findOptimalSplit_result)

text \<open>
  C1. The candidates are exactly the \<open>(i, j, si, sj)\<close> with \<open>2 \<le> |i - j| \<le> n - 2\<close>
  and \<open>1 \<le> si, sj \<le> steps - 1\<close>, listed in ascending loop order. When some
  candidate is within tolerance, the search returns the pieces of the first such
  candidate in that order. When none is, it returns the pieces of a candidate whose
  distance from the target is smallest among all candidates, or \<^verbatim>\<open>null\<close> when there
  is no candidate at all.
\<close>

theorem findOptimalSplit_search:
  "set (candidates (length polygon) steps) =
     {(i, j, si, sj). i < length polygon \<and> j < length polygon \<and>
        2 \<le> \<bar>int i - int j\<bar> \<and> \<bar>int i - int j\<bar> \<le> int (length polygon) - 2 \<and>
        1 \<le> si \<and> si < steps \<and> 1 \<le> sj \<and> sj < steps} \<and>
   sorted_wrt loopOrder (candidates (length polygon) steps) \<and>
   (case find (withinTolerance polygon targetArea steps tolerance)
           (candidates (length polygon) steps) of
      Some c \<Rightarrow>
        \<exists>pieces. candidateSplit polygon steps c = Inr pieces \<and>
          findOptimalSplit polygon targetArea steps tolerance = Inr (Some pieces)
    | None \<Rightarrow>
        if candidates (length polygon) steps = []
        then findOptimalSplit polygon targetArea steps tolerance = Inr None
        else \<exists>c \<in> set (candidates (length polygon) steps). \<exists>pieces.
               candidateSplit polygon steps c = Inr pieces \<and>
               findOptimalSplit polygon targetArea steps tolerance = Inr (Some pieces) \<and>
               (\<forall>c' \<in> set (candidates (length polygon) steps).
                  candidateDiff polygon targetArea steps c
                    \<le> candidateDiff polygon targetArea steps c'))"
proof (intro conjI)
  show "set (candidates (length polygon) steps) =
     {(i, j, si, sj). i < length polygon \<and> j < length polygon \<and>
        2 \<le> \<bar>int i - int j\<bar> \<and> \<bar>int i - int j\<bar> \<le> int (length polygon) - 2 \<and>
        1 \<le> si \<and> si < steps \<and> 1 \<le> sj \<and> sj < steps}"
    using candidates_iff [of _ _ _ _ "length polygon" steps] by auto
  show "sorted_wrt loopOrder (candidates (length polygon) steps)"
    by (rule candidates_sorted)
  let ?cs = "candidates (length polygon) steps"
  have ok: "\<forall>c \<in> set ?cs. \<exists>pieces. candidateSplit polygon steps c = Inr pieces"
    using candidateSplit_Inr by blast
  show "case find (withinTolerance polygon targetArea steps tolerance) ?cs of
      Some c \<Rightarrow>
        \<exists>pieces. candidateSplit polygon steps c = Inr pieces \<and>
          findOptimalSplit polygon targetArea steps tolerance = Inr (Some pieces)
    | None \<Rightarrow>
        if ?cs = []
        then findOptimalSplit polygon targetArea steps tolerance = Inr None
        else \<exists>c \<in> set ?cs. \<exists>pieces.
               candidateSplit polygon steps c = Inr pieces \<and>
               findOptimalSplit polygon targetArea steps tolerance = Inr (Some pieces) \<and>
               (\<forall>c' \<in> set ?cs.
                  candidateDiff polygon targetArea steps c
                    \<le> candidateDiff polygon targetArea steps c')"
  proof (cases "find (withinTolerance polygon targetArea steps tolerance) ?cs")
    case (Some c)
    then have "c \<in> set ?cs" by (auto simp: find_Some_iff)
    then obtain pieces where "candidateSplit polygon steps c = Inr pieces"
      using ok by blast
    with Some show ?thesis by (simp add: findOptimalSplit_result)
  next
    case None
    show ?thesis
    proof (cases "?cs = []")
      case True
      with None show ?thesis by (simp add: findOptimalSplit_result)
    next
      case False
      with keepBest_fold [OF ok, of targetArea] obtain c pieces where
        best: "c \<in> set ?cs" "candidateSplit polygon steps c = Inr pieces"
        "\<forall>c' \<in> set ?cs. candidateDiff polygon targetArea steps c
            \<le> candidateDiff polygon targetArea steps c'"
        and kept: "fold (keepBest polygon targetArea steps) ?cs (None, None) =
           (Some pieces, Some (candidateDiff polygon targetArea steps c))"
        by blast
      have "findOptimalSplit polygon targetArea steps tolerance = Inr (Some pieces)"
        using None kept by (simp add: findOptimalSplit_result)
      with best have "\<exists>c \<in> set ?cs. \<exists>pieces.
               candidateSplit polygon steps c = Inr pieces \<and>
               findOptimalSplit polygon targetArea steps tolerance = Inr (Some pieces) \<and>
               (\<forall>c' \<in> set ?cs.
                  candidateDiff polygon targetArea steps c
                    \<le> candidateDiff polygon targetArea steps c')"
        by blast
      with None False show ?thesis by simp
    qed
  qed
qed

subsection \<open>The search on a square and on short rings\<close>

lemma walk_stop: "walk polygon k k = []"
  by (subst walk.simps) simp

lemma walk_step:
  "k < length polygon \<Longrightarrow> stop < length polygon \<Longrightarrow> k \<noteq> stop \<Longrightarrow>
   walk polygon k stop = polygon ! k # walk polygon ((k + 1) mod length polygon) stop"
  by (subst walk.simps) (simp add: Let_def)

lemma candidates_square: "candidates 4 2 = [(0, 2, 1, 1), (1, 3, 1, 1), (2, 0, 1, 1), (3, 1, 1, 1)]"
  by code_simp

lemma split_square_half:
  "candidateSplit [(0, 0), (10, 0), (10, 10), (0, 10)] 2 (0, 2, 1, 1) =
     Inr ([(5, 0), (10, 0), (10, 10), (5, 10)], [(5, 10), (0, 10), (0, 0), (5, 0)])"
  by (simp add: candidateSplit_def splitAtEdges_def interpolate_def walk_step walk_stop Let_def)

lemma area_half: "shoelaceArea [(5, 0), (10, 0), (10, 10), (5, 10)] = 50"
  by (simp add: shoelaceArea_def shoelaceTerm_def)

lemma within_square_half:
  "withinTolerance [(0, 0), (10, 0), (10, 10), (0, 10)] 50 2 (1 / 20) (0, 2, 1, 1)"
  by (simp add: withinTolerance_def candidateDiff_def split_square_half area_half del: One_nat_def)

theorem findOptimalSplit_search_witness:
  "find (withinTolerance [(0, 0), (10, 0), (10, 10), (0, 10)] 50 2 (1 / 20)) (candidates 4 2) =
     Some (0, 2, 1, 1) \<and>
   findOptimalSplit [(0, 0), (10, 0), (10, 10), (0, 10)] 50 2 (1 / 20) =
     Inr (Some ([(5, 0), (10, 0), (10, 10), (5, 10)], [(5, 10), (0, 10), (0, 0), (5, 0)]))"
proof -
  have len: "length [(0, 0), (10, 0), (10, 10), (0, 10 :: real)] = 4" by simp
  have found: "find (withinTolerance [(0, 0), (10, 0), (10, 10), (0, 10)] 50 2 (1 / 20)) (candidates 4 2) =
     Some (0, 2, 1, 1)"
    by (simp add: candidates_square within_square_half del: One_nat_def)
  from findOptimalSplit_search [of "[(0, 0), (10, 0), (10, 10), (0, 10)]" 2 50 "1 / 20"]
  have "case find (withinTolerance [(0, 0), (10, 0), (10, 10), (0, 10)] 50 2 (1 / 20)) (candidates 4 2) of
      Some c \<Rightarrow>
        \<exists>pieces. candidateSplit [(0, 0), (10, 0), (10, 10), (0, 10)] 2 c = Inr pieces \<and>
          findOptimalSplit [(0, 0), (10, 0), (10, 10), (0, 10)] 50 2 (1 / 20) = Inr (Some pieces)
    | None \<Rightarrow> True"
    unfolding len by (auto split: option.splits)
  then show ?thesis
    unfolding found by (simp add: split_square_half del: One_nat_def)
qed

lemma candidates_square_first: "candidates 4 10 = (0, 2, 1, 1) # tl (candidates 4 10)"
  by code_simp

lemma split_square_tenth:
  "candidateSplit [(0, 0), (10, 0), (10, 10), (0, 10)] 10 (0, 2, 1, 1) =
     Inr ([(1, 0), (10, 0), (10, 10), (9, 10)], [(9, 10), (0, 10), (0, 0), (1, 0)])"
  by (simp add: candidateSplit_def splitAtEdges_def interpolate_def walk_step walk_stop Let_def)

lemma area_tenth: "shoelaceArea [(1, 0), (10, 0), (10, 10), (9, 10)] = 50"
  by (simp add: shoelaceArea_def shoelaceTerm_def)

lemma findOptimalSplit_square:
  "findOptimalSplit [(0, 0), (10, 0), (10, 10), (0, 10)] 50 10 (1 / 20) =
     Inr (Some ([(1, 0), (10, 0), (10, 10), (9, 10)], [(9, 10), (0, 10), (0, 0), (1, 0)]))"
proof -
  have len: "length [(0, 0), (10, 0), (10, 10), (0, 10 :: real)] = 4" by simp
  have "withinTolerance [(0, 0), (10, 0), (10, 10), (0, 10)] 50 10 (1 / 20) (0, 2, 1, 1)"
    by (simp add: withinTolerance_def candidateDiff_def split_square_tenth area_tenth
        del: One_nat_def)
  then have "find (withinTolerance [(0, 0), (10, 0), (10, 10), (0, 10)] 50 10 (1 / 20))
               (candidates 4 10) = Some (0, 2, 1, 1)"
    by (subst candidates_square_first) (simp del: One_nat_def)
  then show ?thesis
    unfolding findOptimalSplit_result len by (simp add: split_square_tenth del: One_nat_def)
qed

lemma candidates_short: "n < 4 \<Longrightarrow> candidates n steps = []"
proof -
  assume n: "n < 4"
  have "c \<notin> set (candidates n steps)" for c
  proof -
    obtain i j si sj where c: "c = (i, j, si, sj)" by (cases c) auto
    show ?thesis unfolding c candidates_iff using n by auto
  qed
  then show ?thesis by (cases "candidates n steps") auto
qed

lemma findOptimalSplit_short:
  "length polygon < 4 \<Longrightarrow> findOptimalSplit polygon targetArea steps tolerance = Inr None"
  by (simp add: findOptimalSplit_result candidates_short)

section \<open>Properties of the drivers\<close>

subsection \<open>Validation\<close>

lemma isInteger_Ints: "isInteger x \<longleftrightarrow> x \<in> \<int>"
  unfolding isInteger_def
proof
  assume "of_int \<lfloor>x\<rfloor> = x"
  then have "x = of_int \<lfloor>x\<rfloor>" by (rule sym)
  then show "x \<in> \<int>" by (metis Ints_of_int)
next
  assume "x \<in> \<int>"
  then show "of_int \<lfloor>x\<rfloor> = x" by (rule Ints_cases) simp
qed

lemma half_not_integer: "\<not> isInteger (5 / 2)"
proof -
  have "\<lfloor>5 / 2 :: real\<rfloor> = 2" by (simp add: floor_eq_iff)
  then show ?thesis by (simp add: isInteger_def)
qed

text \<open>
  C5. Each driver fails with its error before anything else is computed:
  \<^verbatim>\<open>splitEqualArea\<close> and \<^verbatim>\<open>splitHorizontalEqualArea\<close> when \<^verbatim>\<open>coords\<close> is not an array
  or \<^verbatim>\<open>count\<close> is not positive or not an integer, \<^verbatim>\<open>splitByArea\<close> and
  \<^verbatim>\<open>splitHorizontalByArea\<close> when \<^verbatim>\<open>coords\<close> is not an array or \<^verbatim>\<open>area\<close> is not
  positive. The result is the error alone, with the message of the check that failed.
\<close>

theorem drivers_validate:
  "(coords = NotArray \<or> count \<le> 0 \<or> count \<notin> \<int> \<longrightarrow>
      splitEqualArea coords count =
        Inl (Error (if coords = NotArray then ''Coordinates must be an array''
                    else ''Count must be positive integer'')) \<and>
      splitHorizontalEqualArea coords count =
        Inl (Error (if coords = NotArray then ''Coordinates must be an array''
                    else ''Count must be positive integer''))) \<and>
   (coords = NotArray \<or> area \<le> 0 \<longrightarrow>
      splitByArea coords area =
        Inl (Error (if coords = NotArray then ''Coordinates must be an array''
                    else ''Area must be positive'')) \<and>
      splitHorizontalByArea coords area =
        Inl (Error (if coords = NotArray then ''Coordinates must be an array''
                    else ''Area must be positive'')))"
proof (cases coords)
  case NotArray
  then show ?thesis
    by (simp add: splitEqualArea_def splitHorizontalEqualArea_def splitByArea_def
        splitHorizontalByArea_def)
next
  case (Array cs)
  have count: "splitEqualArea (Array cs) count = Inl (Error ''Count must be positive integer'') \<and>
      splitHorizontalEqualArea (Array cs) count = Inl (Error ''Count must be positive integer'')"
    if "count \<le> 0 \<or> count \<notin> \<int>"
    using that by (auto simp: splitEqualArea_def splitHorizontalEqualArea_def isInteger_Ints)
  have area: "splitByArea (Array cs) area = Inl (Error ''Area must be positive'') \<and>
      splitHorizontalByArea (Array cs) area = Inl (Error ''Area must be positive'')"
    if "area \<le> 0"
    using that by (simp add: splitByArea_def splitHorizontalByArea_def)
  from Array count area show ?thesis by simp
qed

theorem drivers_validate_witness:
  "(0 :: real) \<le> 0 \<and> (5 / 2 :: real) \<notin> \<int> \<and> (- 4 :: real) \<le> 0 \<and>
   splitEqualArea (Array [(0, 0), (10, 0), (10, 10), (0, 10)]) 0 =
     Inl (Error ''Count must be positive integer'') \<and>
   splitHorizontalEqualArea (Array [(0, 0), (10, 0), (10, 10), (0, 10)]) (5 / 2) =
     Inl (Error ''Count must be positive integer'') \<and>
   splitEqualArea NotArray 2 = Inl (Error ''Coordinates must be an array'') \<and>
   splitByArea (Array [(0, 0), (10, 0), (10, 10), (0, 10)]) (- 4) =
     Inl (Error ''Area must be positive'') \<and>
   splitHorizontalByArea (Array [(0, 0), (10, 0), (10, 10), (0, 10)]) (- 4) =
     Inl (Error ''Area must be positive'')"
proof -
  have half: "(5 / 2 :: real) \<notin> \<int>"
    using half_not_integer by (simp only: isInteger_Ints) simp
  from drivers_validate [of "Array [(0, 0), (10, 0), (10, 10), (0, 10)]" 0 "- 4"]
       drivers_validate [of "Array [(0, 0), (10, 0), (10, 10), (0, 10)]" "5 / 2" "- 4"]
       drivers_validate [of NotArray 2 1]
  show ?thesis using half by simp
qed

subsection \<open>A single piece\<close>

text \<open>
  C10, as the code has it. With \<^verbatim>\<open>count = 1\<close> the loops run zero times.
  \<^verbatim>\<open>splitEqualArea\<close> returns the one-element list of the ring, for every ring.
  \<^verbatim>\<open>splitHorizontalEqualArea\<close> does so for every ring that is not empty; it pushes
  the remaining ring only when its length is positive, so for the empty ring it returns
  the empty list.
\<close>

theorem splitEqualArea_one:
  "splitEqualArea (Array cs) 1 = Inr [cs] \<and>
   (cs \<noteq> [] \<longrightarrow> splitHorizontalEqualArea (Array cs) 1 = Inr [cs]) \<and>
   splitHorizontalEqualArea (Array []) 1 = Inr []"
  by (simp add: splitEqualArea_def splitHorizontalEqualArea_def isInteger_def)

theorem splitEqualArea_one_witness:
  "splitEqualArea (Array [(0, 0), (10, 0), (10, 10)]) 1 = Inr [[(0, 0), (10, 0), (10, 10)]] \<and>
   splitHorizontalEqualArea (Array [(0, 0), (10, 0), (10, 10)]) 1 = Inr [[(0, 0), (10, 0), (10, 10)]]"
  using splitEqualArea_one [of "[(0, 0), (10, 0), (10, 10)]"] by simp

text \<open>On the empty ring the result is not a one-element list.\<close>

theorem splitHorizontalEqualArea_one_empty:
  "splitHorizontalEqualArea (Array []) 1 \<noteq> Inr [[]]"
  by (simp add: splitHorizontalEqualArea_def isInteger_def)

subsection \<open>Splitting by count and by area\<close>

lemma peel_length: "1 \<le> length (peel count is current) \<and> length (peel count is current) \<le> length is + 1"
  by (induction "is" arbitrary: current) (auto split: sum.splits option.splits)

lemma peel_loop:
  "(case forEach is (peelChord count) (parts, current) of
      Next (p, c) \<Rightarrow> Inr (p @ [c])
    | Break (p, c) \<Rightarrow> Inr (p @ [c])
    | Throw e \<Rightarrow> Inl e) = (Inr (parts @ peel count is current) :: error + ring list)"
proof (induction "is" arbitrary: parts current)
  case Nil
  show ?case by simp
next
  case (Cons i rest)
  obtain r where r: "findOptimalSplit current (shoelaceArea current / (count - real i)) 10 (5 / 100) = Inr r"
    using findOptimalSplit_no_throw by blast
  show ?case
  proof (cases r)
    case None
    with r show ?thesis by (simp add: peelChord_def)
  next
    case (Some pieces)
    obtain piece remaining where "pieces = (piece, remaining)" by (cases pieces)
    with r Some show ?thesis
      using Cons.IH [of "parts @ [piece]" remaining] by (simp add: peelChord_def)
  qed
qed

lemma splitEqualArea_peel:
  assumes "0 < count" and "count \<in> \<int>"
  shows "splitEqualArea (Array cs) count = Inr (peel count [0..<nat \<lfloor>count\<rfloor> - 1] cs)"
  using assms peel_loop [of "[0..<nat \<lfloor>count\<rfloor> - 1]" count "[]" cs]
  by (simp add: splitEqualArea_def isInteger_Ints)

lemma splitEqualArea_length:
  assumes "0 < count" and "count \<in> \<int>"
  shows "\<exists>parts. splitEqualArea (Array cs) count = Inr parts \<and>
           1 \<le> length parts \<and> real (length parts) \<le> count"
proof -
  let ?is = "[0..<nat \<lfloor>count\<rfloor> - 1]"
  from assms(2) obtain m where m: "count = of_int m" by (rule Ints_cases)
  with assms(1) have "0 < m" by simp
  then have "real (length ?is + 1) = count" by (simp add: m)
  moreover have "real (length (peel count ?is cs)) \<le> real (length ?is + 1)"
    using peel_length [of count ?is cs] by (simp only: of_nat_le_iff)
  ultimately have "real (length (peel count ?is cs)) \<le> count" by simp
  then show ?thesis
    using peel_length [of count ?is cs] by (simp add: splitEqualArea_peel [OF assms])
qed

lemma peel_no_cut:
  assumes "2 \<le> count"
    and "findOptimalSplit cs (shoelaceArea cs / count) 10 (5 / 100) = Inr None"
  shows "peel count [0..<nat \<lfloor>count\<rfloor> - 1] cs = [cs]"
proof -
  from assms(1) have "2 \<le> \<lfloor>count\<rfloor>" by (simp add: le_floor_iff)
  then have "0 < nat \<lfloor>count\<rfloor> - 1" by simp
  then have "[0..<nat \<lfloor>count\<rfloor> - 1] = 0 # [Suc 0..<nat \<lfloor>count\<rfloor> - 1]"
    by (rule upt_conv_Cons)
  then show ?thesis using assms(2) by simp
qed

text \<open>
  C6. For a ring and a positive integer \<^verbatim>\<open>count\<close>, \<^verbatim>\<open>splitEqualArea\<close> returns a
  list of pieces and does not throw; the list has at least 1 and at most \<^verbatim>\<open>count\<close>
  pieces; and it is the list \<open>peel\<close> describes: iteration \<open>i\<close> targets the remaining
  area divided by \<open>count - i\<close>, the loop ends early when the search finds no cut, and the
  ring that remains is the last piece. In particular, when already the first search
  finds no cut, the result is the ring alone.
\<close>

theorem splitEqualArea_pieces:
  assumes "0 < count" and "count \<in> \<int>"
  shows "\<exists>parts. splitEqualArea (Array cs) count = Inr parts \<and>
           1 \<le> length parts \<and> real (length parts) \<le> count \<and>
           parts = peel count [0..<nat \<lfloor>count\<rfloor> - 1] cs \<and>
           (2 \<le> count \<and> findOptimalSplit cs (shoelaceArea cs / count) 10 (5 / 100) = Inr None
              \<longrightarrow> parts = [cs])"
  using splitEqualArea_length [OF assms, of cs] splitEqualArea_peel [OF assms, of cs]
    peel_no_cut [of count cs]
  by auto

theorem splitEqualArea_pieces_witness:
  "(0 :: real) < 3 \<and> (3 :: real) \<in> \<int> \<and>
   splitEqualArea (Array [(0, 0), (10, 0), (10, 10)]) 3 = Inr [[(0, 0), (10, 0), (10, 10)]] \<and>
   (0 :: real) < 2 \<and> (2 :: real) \<in> \<int> \<and>
   splitEqualArea (Array [(0, 0), (10, 0), (10, 10), (0, 10)]) 2 =
     Inr [[(1, 0), (10, 0), (10, 10), (9, 10)], [(9, 10), (0, 10), (0, 0), (1, 0)]]"
proof -
  have three: "peel 3 [0..<2] [(0, 0), (10, 0), (10, 10)] = [[(0, 0), (10, 0), (10, 10)]]"
    by (simp add: upt_rec [of 0 2] findOptimalSplit_short)
  from splitEqualArea_pieces [of 3 "[(0, 0), (10, 0), (10, 10)]"]
       splitEqualArea_pieces [of 2 "[(0, 0), (10, 0), (10, 10), (0, 10)]"]
  show ?thesis by (simp add: three area_square findOptimalSplit_square)
qed

text \<open>
  C7. For a ring and a positive \<^verbatim>\<open>area\<close>, \<^verbatim>\<open>splitByArea\<close> returns what
  \<^verbatim>\<open>splitEqualArea\<close> returns for the count \<open>max 1 (round (shoelaceArea coords / area))\<close>,
  and the number of pieces is at most that count.
\<close>

theorem splitByArea_delegates:
  assumes "0 < area"
  shows "splitByArea (Array cs) area =
           splitEqualArea (Array cs) (real_of_int (max 1 (round (shoelaceArea cs / area)))) \<and>
         (\<exists>parts. splitByArea (Array cs) area = Inr parts \<and>
            int (length parts) \<le> max 1 (round (shoelaceArea cs / area)))"
proof -
  let ?count = "max 1 (round (shoelaceArea cs / area))"
  have eq: "splitByArea (Array cs) area = splitEqualArea (Array cs) (real_of_int ?count)"
    using assms by (simp add: splitByArea_def Let_def)
  have "0 < real_of_int ?count" by simp
  moreover have "real_of_int ?count \<in> \<int>" by simp
  ultimately obtain parts where
    "splitEqualArea (Array cs) (real_of_int ?count) = Inr parts"
    "real (length parts) \<le> real_of_int ?count"
    using splitEqualArea_length by blast
  moreover from this(2) have "int (length parts) \<le> ?count" by linarith
  ultimately show ?thesis using eq by simp
qed

theorem splitByArea_delegates_witness:
  "(0 :: real) < 40 \<and>
   splitByArea (Array [(0, 0), (10, 0), (10, 10)]) 40 =
     splitEqualArea (Array [(0, 0), (10, 0), (10, 10)]) 1 \<and>
   splitByArea (Array [(0, 0), (10, 0), (10, 10)]) 40 = Inr [[(0, 0), (10, 0), (10, 10)]]"
proof -
  have area: "shoelaceArea [(0, 0), (10, 0), (10, 10)] = 50"
    by (simp add: shoelaceArea_def shoelaceTerm_def)
  have "round (50 / 40 :: real) = 1" by (simp add: round_def floor_eq_iff)
  with splitByArea_delegates [of 40 "[(0, 0), (10, 0), (10, 10)]"] area
  show ?thesis by (simp add: splitEqualArea_def isInteger_def)
qed

section \<open>Properties of the band search\<close>





section \<open>The horizontal driver on a square\<close>

lemma clip_square_low:
  "clipHorizontal [(0, 0), (10, 0), (10, 10), (0, 10)] 0 5 = [(0, 0), (10, 0), (10, 5), (0, 5), (0, 0)]"
  by (simp add: clipHorizontal_def clipEdge_def closeRing_def)

lemma clip_square_all:
  "clipHorizontal [(0, 0), (10, 0), (10, 10), (0, 10)] 0 10 = [(0, 0), (10, 0), (10, 10), (0, 10), (0, 0)]"
  by (simp add: clipHorizontal_def clipEdge_def closeRing_def)

lemma area_square_low:
  "shoelaceArea [(0, 0), (10, 0), (10, 5), (0, 5), (0, 0)] = 50"
  by (simp add: shoelaceArea_def shoelaceTerm_def)

lemma bandSearch_square:
  "bandSearch [(0, 0), (10, 0), (10, 10), (0, 10)] 0 50 0 10 = Some [(0, 0), (10, 0), (10, 5), (0, 5), (0, 0)]"
  by (simp add: bandSearch_def bandStep_def clip_square_low area_square_low upt_rec [of 0 20])



text \<open>
  C2, on the square of side 10 split into 2 bands. The first band reaches from
  \<open>y = 0\<close> to \<open>y = 5\<close>, but its last point is the closing copy of its first point
  \<open>(0, 0)\<close>, so the loop continues with \<^verbatim>\<open>currentY = 0\<close> instead of the top boundary 5:
  the remaining ring is clipped to \<open>[0, 10]\<close>, and the second band returned is the whole
  square, whose lowest \<open>y\<close> is 0 again and which overlaps the first band.
\<close>

theorem splitHorizontalEqualArea_square:
  "peelBand 10 50 2 0 ([], 0, [(0, 0), (10, 0), (10, 10), (0, 10)]) =
     Next ([[(0, 0), (10, 0), (10, 5), (0, 5), (0, 0)]], 0, [(0, 0), (10, 0), (10, 10), (0, 10), (0, 0)]) \<and>
   Math_max (map snd [(0, 0), (10, 0), (10, 5), (0, 5), (0, 0)]) = 5 \<and>
   splitHorizontalEqualArea (Array [(0, 0), (10, 0), (10, 10), (0, 10)]) 2 =
     Inr [[(0, 0), (10, 0), (10, 5), (0, 5), (0, 0)], [(0, 0), (10, 0), (10, 10), (0, 10), (0, 0)]] \<and>
   Math_min (map snd [(0, 0), (10, 0), (10, 10), (0, 10), (0, 0)]) = 0"
  by (simp add: splitHorizontalEqualArea_def isInteger_def Math_min_def Math_max_def area_square
      peelBand_def bandSearch_square clip_square_all)

end
